theory Spec2Isabelle
  imports Main "HOL-Library.Char_ord" "HOL-Library.List_Lexorder" "HOL-Library.Product_Lexorder"
    "HOL-Library.Multiset" "HOL-Library.Word"
begin

section \<open>Coffee shop sales dashboard: column detection, preprocessing, aggregation\<close>

text \<open>
  The development follows \<^verbatim>\<open>visdattubes.py\<close>: the detection of the five working columns
  (lines 117-136), the preprocessing block (lines 140-167) and the three grouped views
  (lines 199-218). Column names and text cells are ASCII strings. Exceptions of the
  Python run time are values of \<open>py_error\<close>.
\<close>

subsection \<open>Python primitives used by the script\<close>

datatype py_error = IndexError | ValueError | KeyError | TypeError

text \<open>\<^verbatim>\<open>xs[i]\<close>: a negative index counts from the end, an index out of range raises.\<close>

definition item :: "'a list \<Rightarrow> int \<Rightarrow> py_error + 'a" where
  "item xs i =
     (if 0 \<le> i \<and> i < int (length xs) then Inr (xs ! nat i)
      else if i < 0 \<and> - i \<le> int (length xs) then Inr (xs ! nat (int (length xs) + i))
      else Inl IndexError)"

text \<open>\<^verbatim>\<open>str.lower()\<close> on ASCII text.\<close>

definition lower_char :: "char \<Rightarrow> char" where
  "lower_char c =
     (if CHR ''A'' \<le> c \<and> c \<le> CHR ''Z'' then char_of (of_char c + (32::nat)) else c)"

definition lower :: "string \<Rightarrow> string" where
  "lower s = map lower_char s"

text \<open>\<^verbatim>\<open>sub in s\<close> on strings: \<open>sub\<close> occurs in \<open>s\<close> as a contiguous block.\<close>

fun starts_with :: "string \<Rightarrow> string \<Rightarrow> bool" where
  "starts_with [] s = True"
| "starts_with (p # ps) [] = False"
| "starts_with (p # ps) (c # cs) = (p = c \<and> starts_with ps cs)"

fun contains :: "string \<Rightarrow> string \<Rightarrow> bool" where
  "contains sub [] = (sub = [])"
| "contains sub (c # cs) = (starts_with sub (c # cs) \<or> contains sub cs)"

subsection \<open>Column detection (lines 117-136)\<close>

record roles =
  date_col :: string
  time_col :: string
  location_col :: string
  category_col :: string
  bill_col :: string

text \<open>\<^verbatim>\<open>found[0] if found else fallback\<close>; the fallback is evaluated only when needed.\<close>

definition first_or :: "string list \<Rightarrow> py_error + string \<Rightarrow> py_error + string" where
  "first_or found fallback = (case found of [] \<Rightarrow> fallback | c # _ \<Rightarrow> Inr c)"

definition date_cols :: "string list \<Rightarrow> string list" where
  "date_cols names = [col \<leftarrow> names. contains ''date'' (lower col)]"

definition time_cols :: "string list \<Rightarrow> string list" where
  "time_cols names = [col \<leftarrow> names. contains ''time'' (lower col)]"

definition location_cols :: "string list \<Rightarrow> string list" where
  "location_cols names =
     [col \<leftarrow> names. contains ''location'' (lower col) \<or> contains ''store'' (lower col)]"

definition category_cols :: "string list \<Rightarrow> string list" where
  "category_cols names =
     [col \<leftarrow> names. contains ''category'' (lower col) \<or> contains ''product'' (lower col)]"

definition amount_cols :: "string list \<Rightarrow> string list" where
  "amount_cols names =
     [col \<leftarrow> names. contains ''bill'' (lower col) \<or> contains ''total'' (lower col)
        \<or> contains ''amount'' (lower col) \<or> contains ''price'' (lower col)]"

definition resolve :: "string list \<Rightarrow> py_error + roles" where
  "resolve names =
     (case first_or (date_cols names) (item names 0) of
        Inl e \<Rightarrow> Inl e
      | Inr d \<Rightarrow>
     (case first_or (time_cols names)
             (if length names > 1 then item names 1 else item names 0) of
        Inl e \<Rightarrow> Inl e
      | Inr t \<Rightarrow>
     (case first_or (location_cols names)
             (if length names > 2 then item names 2 else item names 0) of
        Inl e \<Rightarrow> Inl e
      | Inr l \<Rightarrow>
     (case first_or (category_cols names)
             (if length names > 3 then item names 3 else item names 0) of
        Inl e \<Rightarrow> Inl e
      | Inr c \<Rightarrow>
     (case first_or (amount_cols names) (item names (- 1)) of
        Inl e \<Rightarrow> Inl e
      | Inr b \<Rightarrow>
          Inr \<lparr>date_col = d, time_col = t, location_col = l, category_col = c,
               bill_col = b\<rparr>)))))"

subsection \<open>Cells, timestamps and data frames\<close>

datatype month = January | February | March | April | May | June
  | July | August | September | October | November | December

text \<open>
  A parsed date (\<^verbatim>\<open>pandas.Timestamp\<close>): calendar date and the seconds since midnight.
\<close>

datatype timestamp = Timestamp (ts_year: nat) (ts_month: month) (ts_day: nat) (ts_secs: nat)

text \<open>
  A cell of the table: missing (\<^verbatim>\<open>None\<close>, \<^verbatim>\<open>NaN\<close>, \<^verbatim>\<open>NaT\<close>), text, a whole number
  or a timestamp. Amounts are whole numbers with exact arithmetic.
\<close>

datatype cell = Null | Text string | Number int | Stamp timestamp

text \<open>\<^verbatim>\<open>pd.notna(x)\<close>\<close>

fun notna :: "cell \<Rightarrow> bool" where
  "notna Null = False"
| "notna _ = True"

text \<open>
  A data frame: the columns in order, each with its name and its cells.
  \<^verbatim>\<open>data.columns\<close>, \<^verbatim>\<open>len(data)\<close>, \<^verbatim>\<open>data[name]\<close> and \<^verbatim>\<open>data[name] = values\<close>.
\<close>

type_synonym frame = "(string \<times> cell list) list"

definition columns :: "frame \<Rightarrow> string list" where
  "columns data = map fst data"

definition nrows :: "frame \<Rightarrow> nat" where
  "nrows data = (case data of [] \<Rightarrow> 0 | (name, cells) # _ \<Rightarrow> length cells)"

definition getcol :: "frame \<Rightarrow> string \<Rightarrow> py_error + cell list" where
  "getcol data name = (case map_of data name of None \<Rightarrow> Inl KeyError | Some cells \<Rightarrow> Inr cells)"

text \<open>The same read where the script has just checked or created the column.\<close>

definition the_col :: "frame \<Rightarrow> string \<Rightarrow> cell list" where
  "the_col data name = (case map_of data name of None \<Rightarrow> [] | Some cells \<Rightarrow> cells)"

fun set_col :: "frame \<Rightarrow> string \<Rightarrow> cell list \<Rightarrow> frame" where
  "set_col [] name cells = [(name, cells)]"
| "set_col ((n, c) # rest) name cells =
     (if n = name then (n, cells) # rest else (n, c) # set_col rest name cells)"

text \<open>All columns of a frame have one length.\<close>

definition frame_ok :: "frame \<Rightarrow> bool" where
  "frame_ok data = list_all (\<lambda>(name, cells). length cells = nrows data) data"

text \<open>Boolean indexing: \<^verbatim>\<open>series[mask]\<close> and \<^verbatim>\<open>data[mask]\<close>.\<close>

definition select :: "bool list \<Rightarrow> 'a list \<Rightarrow> 'a list" where
  "select flags xs = map snd (filter fst (zip flags xs))"

definition take_rows :: "bool list \<Rightarrow> frame \<Rightarrow> frame" where
  "take_rows flags data = map (\<lambda>(name, cells). (name, select flags cells)) data"

text \<open>\<^verbatim>\<open>series == value\<close>: a missing cell equals nothing.\<close>

definition eq_mask :: "cell list \<Rightarrow> cell \<Rightarrow> bool list" where
  "eq_mask cells v = map (\<lambda>x. notna x \<and> x = v) cells"

subsection \<open>Text of a cell and \<^verbatim>\<open>int(...)\<close>\<close>

definition digit_char :: "nat \<Rightarrow> char" where
  "digit_char d = ''0123456789'' ! d"

fun digits :: "nat \<Rightarrow> string" where
  "digits n = (if n < 10 then [digit_char n] else digits (n div 10) @ [digit_char (n mod 10)])"

declare digits.simps [simp del]

definition pad :: "nat \<Rightarrow> nat \<Rightarrow> string" where
  "pad width n = replicate (width - length (digits n)) CHR ''0'' @ digits n"

definition month_number :: "month \<Rightarrow> nat" where
  "month_number m = (case m of January \<Rightarrow> 1 | February \<Rightarrow> 2 | March \<Rightarrow> 3 | April \<Rightarrow> 4
     | May \<Rightarrow> 5 | June \<Rightarrow> 6 | July \<Rightarrow> 7 | August \<Rightarrow> 8 | September \<Rightarrow> 9 | October \<Rightarrow> 10
     | November \<Rightarrow> 11 | December \<Rightarrow> 12)"

text \<open>
  \<^verbatim>\<open>str(x)\<close>. A timestamp prints as \<^verbatim>\<open>YYYY-MM-DD HH:MM:SS\<close>. The script never prints a
  missing cell (\<^verbatim>\<open>pd.notna(x)\<close> is tested first); its text is \<^verbatim>\<open>nan\<close>.
\<close>

fun str :: "cell \<Rightarrow> string" where
  "str Null = ''nan''"
| "str (Text s) = s"
| "str (Number n) = (if n < 0 then CHR ''-'' # digits (nat (- n)) else digits (nat n))"
| "str (Stamp t) =
     pad 4 (ts_year t) @ ''-'' @ pad 2 (month_number (ts_month t)) @ ''-'' @ pad 2 (ts_day t)
     @ '' '' @ pad 2 (ts_secs t div 3600) @ '':'' @ pad 2 (ts_secs t div 60 mod 60)
     @ '':'' @ pad 2 (ts_secs t mod 60)"

text \<open>
  \<^verbatim>\<open>int(s)\<close> on text: blanks around the number are dropped (space, tab, line feed,
  vertical tab, form feed, carriage return), one sign may come first, then decimal digits,
  where single underscores may separate digits. Anything else raises \<^verbatim>\<open>ValueError\<close>.
\<close>

definition is_space :: "char \<Rightarrow> bool" where
  "is_space c = (c \<in> set [CHR '' '', CHR 0x09, CHR 0x0A, CHR 0x0B, CHR 0x0C, CHR 0x0D])"

definition is_digit :: "char \<Rightarrow> bool" where
  "is_digit c = (CHR ''0'' \<le> c \<and> c \<le> CHR ''9'')"

definition digit_val :: "char \<Rightarrow> nat" where
  "digit_val c = of_char c - of_char CHR ''0''"

definition strip :: "string \<Rightarrow> string" where
  "strip s = rev (dropWhile is_space (rev (dropWhile is_space s)))"

text \<open>
  The digits after the sign, read left to right with the value so far; \<open>after_digit\<close>
  tells whether the previous character was a digit, which an underscore and the end need.
\<close>

fun read_digits :: "nat \<Rightarrow> bool \<Rightarrow> string \<Rightarrow> nat option" where
  "read_digits acc after_digit [] = (if after_digit then Some acc else None)"
| "read_digits acc after_digit (c # cs) =
     (if is_digit c then read_digits (acc * 10 + digit_val c) True cs
      else if c = CHR ''_'' \<and> after_digit then read_digits acc False cs
      else None)"

definition py_int :: "string \<Rightarrow> py_error + int" where
  "py_int s =
     (case strip s of
        [] \<Rightarrow> Inl ValueError
      | c # cs \<Rightarrow>
          if c = CHR ''-'' then
            (case read_digits 0 False cs of None \<Rightarrow> Inl ValueError | Some n \<Rightarrow> Inr (- int n))
          else if c = CHR ''+'' then
            (case read_digits 0 False cs of None \<Rightarrow> Inl ValueError | Some n \<Rightarrow> Inr (int n))
          else
            (case read_digits 0 False (c # cs) of None \<Rightarrow> Inl ValueError | Some n \<Rightarrow> Inr (int n)))"

text \<open>\<^verbatim>\<open>s.split(':')[0]\<close>: the text before the first colon, all of it when there is none.\<close>

definition split_first :: "string \<Rightarrow> string" where
  "split_first s = takeWhile (\<lambda>c. c \<noteq> CHR '':'') s"

subsection \<open>Preprocessing (lines 140-167)\<close>

text \<open>
  The function applied to every cell of the time column (line 150):
  \<^verbatim>\<open>lambda x: int(str(x).split(':')[0]) if pd.notna(x) and ':' in str(x) else 12\<close>
\<close>

definition hour_of :: "cell \<Rightarrow> py_error + cell" where
  "hour_of x =
     (if notna x \<and> contains '':'' (str x) then
        (case py_int (split_first (str x)) of Inl e \<Rightarrow> Inl e | Inr h \<Rightarrow> Inr (Number h))
      else Inr (Number 12))"

text \<open>\<^verbatim>\<open>series.apply(f)\<close>: the first exception ends the loop.\<close>

fun apply_col :: "(cell \<Rightarrow> py_error + cell) \<Rightarrow> cell list \<Rightarrow> py_error + cell list" where
  "apply_col f [] = Inr []"
| "apply_col f (x # xs) =
     (case f x of
        Inl e \<Rightarrow> Inl e
      | Inr y \<Rightarrow> (case apply_col f xs of Inl e \<Rightarrow> Inl e | Inr ys \<Rightarrow> Inr (y # ys)))"

text \<open>
  \<^verbatim>\<open>pd.to_datetime(..., dayfirst=True, errors='coerce')\<close> and \<^verbatim>\<open>.dt.day_name()\<close> belong to
  pandas; the model takes the parser of one cell (\<open>None\<close> where pandas gives \<^verbatim>\<open>NaT\<close>)
  and the weekday of a timestamp as parameters. \<^verbatim>\<open>.dt.month_name()\<close> reads the month.
\<close>

definition coerce :: "(cell \<Rightarrow> timestamp option) \<Rightarrow> cell \<Rightarrow> cell" where
  "coerce to_datetime x = (case to_datetime x of None \<Rightarrow> Null | Some t \<Rightarrow> Stamp t)"

definition dt :: "(timestamp \<Rightarrow> string) \<Rightarrow> cell \<Rightarrow> cell" where
  "dt f x = (case x of Stamp t \<Rightarrow> Text (f t) | _ \<Rightarrow> Null)"

definition month_name :: "timestamp \<Rightarrow> string" where
  "month_name t = (case ts_month t of January \<Rightarrow> ''January'' | February \<Rightarrow> ''February''
     | March \<Rightarrow> ''March'' | April \<Rightarrow> ''April'' | May \<Rightarrow> ''May'' | June \<Rightarrow> ''June''
     | July \<Rightarrow> ''July'' | August \<Rightarrow> ''August'' | September \<Rightarrow> ''September''
     | October \<Rightarrow> ''October'' | November \<Rightarrow> ''November'' | December \<Rightarrow> ''December'')"

text \<open>
  \<^verbatim>\<open>pd.Categorical(values, categories=..., ordered=True)\<close>: a value that is not one of the
  categories becomes missing.
\<close>

definition categorical :: "string list \<Rightarrow> cell \<Rightarrow> cell" where
  "categorical categories x =
     (case x of Text s \<Rightarrow> if s \<in> set categories then Text s else Null | _ \<Rightarrow> Null)"

definition weekly_order :: "string list" where
  "weekly_order = [''Monday'', ''Tuesday'', ''Wednesday'', ''Thursday'', ''Friday'',
                   ''Saturday'', ''Sunday'']"

definition month_order :: "string list" where
  "month_order = [''January'', ''February'', ''March'', ''April'', ''May'', ''June'']"

text \<open>\<^verbatim>\<open>series.loc[mask] = value\<close> on one column.\<close>

definition loc_assign :: "bool list \<Rightarrow> cell \<Rightarrow> cell list \<Rightarrow> cell list" where
  "loc_assign flags v cells = map (\<lambda>(m, x). if m then v else x) (zip flags cells)"

text \<open>Lines 156-157: \<^verbatim>\<open>data.loc[data[bill_col] == 360, bill_col] = 36\<close>.\<close>

definition correct_anomaly :: "string \<Rightarrow> frame \<Rightarrow> frame" where
  "correct_anomaly bill data =
     (if bill \<in> set (columns data) then
        set_col data bill
          (loc_assign (eq_mask (the_col data bill) (Number 360)) (Number 36) (the_col data bill))
      else data)"

text \<open>
  The two ways the block stops the script: the date column is not in the table
  (lines 144-146), or an exception reaches the handler of lines 169-176.
\<close>

datatype prep_error = MissingDateColumn | PreprocessingError py_error

text \<open>Lines 141-143.\<close>

definition add_dates ::
  "(cell \<Rightarrow> timestamp option) \<Rightarrow> (timestamp \<Rightarrow> string) \<Rightarrow> string \<Rightarrow> frame \<Rightarrow> frame" where
  "add_dates to_datetime day_name date data =
     (let data = set_col data ''transaction_date'' (map (coerce to_datetime) (the_col data date))
      in set_col data ''weekday'' (map (dt day_name) (the_col data ''transaction_date'')))"

text \<open>Lines 149-153.\<close>

definition add_hour :: "string \<Rightarrow> frame \<Rightarrow> py_error + frame" where
  "add_hour time data =
     (if time \<in> set (columns data) then
        (case apply_col hour_of (the_col data time) of
           Inl e \<Rightarrow> Inl e
         | Inr hours \<Rightarrow> Inr (set_col data ''Hour'' hours))
      else Inr (set_col data ''Hour'' (replicate (nrows data) (Number 12))))"

text \<open>Lines 160-167.\<close>

definition add_names :: "frame \<Rightarrow> frame" where
  "add_names data =
     (let data = set_col data ''Day Name'' (the_col data ''weekday'');
          data = set_col data ''Month Name'' (map (dt month_name) (the_col data ''transaction_date''));
          data = set_col data ''Day Name'' (map (categorical weekly_order) (the_col data ''Day Name''))
      in set_col data ''Month Name'' (map (categorical month_order) (the_col data ''Month Name'')))"

definition enrich ::
  "(cell \<Rightarrow> timestamp option) \<Rightarrow> (timestamp \<Rightarrow> string) \<Rightarrow> roles \<Rightarrow> frame \<Rightarrow> prep_error + frame" where
  "enrich to_datetime day_name r data =
     (if date_col r \<in> set (columns data) then
        (case add_hour (time_col r) (add_dates to_datetime day_name (date_col r) data) of
           Inl e \<Rightarrow> Inl (PreprocessingError e)
         | Inr data \<Rightarrow> Inr (add_names (correct_anomaly (bill_col r) data)))
      else Inl MissingDateColumn)"

subsection \<open>The three views (lines 199-218)\<close>

text \<open>
  The order of group keys. \<^verbatim>\<open>groupby\<close> sorts its keys: timestamps by time, text by
  code point, numbers by value; in a column that mixes them numbers come before text.
\<close>

fun cell_key :: "cell \<Rightarrow> nat \<times> int \<times> string \<times> nat \<times> nat \<times> nat \<times> nat" where
  "cell_key (Number n) = (0, n, [], 0, 0, 0, 0)"
| "cell_key (Text s) = (1, 0, s, 0, 0, 0, 0)"
| "cell_key (Stamp t) =
     (2, 0, [], ts_year t, month_number (ts_month t), ts_day t, ts_secs t)"
| "cell_key Null = (3, 0, [], 0, 0, 0, 0)"

text \<open>
  The amount column is an \<^verbatim>\<open>int64\<close> column: its cells are whole numbers of 64 bits and
  pandas adds them with wrap-around. A sum is a word of 64 bits, read as a signed number
  by \<open>sint\<close>; \<open>fits_int64\<close> is the range of such a number.
\<close>

type_synonym int64 = "64 word"

definition fits_int64 :: "int \<Rightarrow> bool" where
  "fits_int64 n = (- (2 ^ 63) \<le> n \<and> n < 2 ^ 63)"

text \<open>
  \<^verbatim>\<open>.sum()\<close> over the cells of one group. Numbers are added, a missing cell is skipped
  and an empty sum is 0. Text and timestamps are not added: pandas raises
  \<^verbatim>\<open>TypeError\<close> when a number meets text and when the column holds dates. (A column
  with missing amounts is a \<^verbatim>\<open>float64\<close> column in pandas and a group of text only is
  joined into one text; the model does not cover their results.)
\<close>

fun summable :: "cell \<Rightarrow> bool" where
  "summable (Text s) = False"
| "summable (Stamp t) = False"
| "summable _ = True"

fun amount :: "cell \<Rightarrow> int64" where
  "amount (Number n) = word_of_int n"
| "amount _ = 0"

definition sum_cells :: "cell list \<Rightarrow> py_error + int64" where
  "sum_cells cells =
     (if list_all summable cells then Inr (sum_list (map amount cells)) else Inl TypeError)"

text \<open>
  \<^verbatim>\<open>data.groupby(by)[val].sum().reset_index()\<close>: one pair for every distinct key that is
  not missing, keys ascending; rows with a missing key belong to no group.
  \<^verbatim>\<open>reset_index\<close> raises \<^verbatim>\<open>ValueError\<close> when the value column is the key column.
\<close>

type_synonym view = "(cell \<times> int64) list"

definition group_keys :: "cell list \<Rightarrow> cell list" where
  "group_keys keys = sort_key cell_key (remdups (filter notna keys))"

fun group_sums :: "cell list \<Rightarrow> cell list \<Rightarrow> cell list \<Rightarrow> py_error + view" where
  "group_sums keys vals [] = Inr []"
| "group_sums keys vals (k # ks) =
     (case sum_cells (select (eq_mask keys k) vals) of
        Inl e \<Rightarrow> Inl e
      | Inr s \<Rightarrow>
          (case group_sums keys vals ks of Inl e \<Rightarrow> Inl e | Inr rest \<Rightarrow> Inr ((k, s) # rest)))"

definition groupby_sum :: "frame \<Rightarrow> string \<Rightarrow> string \<Rightarrow> py_error + view" where
  "groupby_sum data by val =
     (case getcol data by of
        Inl e \<Rightarrow> Inl e
      | Inr keys \<Rightarrow>
     (case getcol data val of
        Inl e \<Rightarrow> Inl e
      | Inr vals \<Rightarrow>
     (case group_sums keys vals (group_keys keys) of
        Inl e \<Rightarrow> Inl e
      | Inr sums \<Rightarrow> if by = val then Inl ValueError else Inr sums)))"

text \<open>\<^verbatim>\<open>data[data[name] == v]\<close>\<close>

definition where_eq :: "frame \<Rightarrow> string \<Rightarrow> cell \<Rightarrow> py_error + frame" where
  "where_eq data name v =
     (case getcol data name of
        Inl e \<Rightarrow> Inl e
      | Inr cells \<Rightarrow> Inr (take_rows (eq_mask cells v) data))"

text \<open>Lines 199-205. The selected location is a value of the column or the text
  \<^verbatim>\<open>All Locations\<close>.\<close>

definition daily_sums :: "roles \<Rightarrow> frame \<Rightarrow> cell \<Rightarrow> int \<Rightarrow> py_error + view" where
  "daily_sums r data selected_location selected_hour =
     (case (if selected_location \<noteq> Text ''All Locations''
            then where_eq data (location_col r) selected_location else Inr data) of
        Inl e \<Rightarrow> Inl e
      | Inr filtered_daily_data \<Rightarrow>
     (case where_eq filtered_daily_data ''Hour'' (Number selected_hour) of
        Inl e \<Rightarrow> Inl e
      | Inr filtered_daily_data \<Rightarrow>
          groupby_sum filtered_daily_data ''transaction_date'' (bill_col r)))"







subsection \<open>A small shop\<close>

text \<open>
  Four sales, the last one with a date that does not parse and no time; the table before
  and after preprocessing. 1 January 2024 was a Monday.
\<close>

definition shop_roles :: roles where
  "shop_roles = \<lparr>date_col = ''Date'', time_col = ''Time'', location_col = ''Store'',
                  category_col = ''Product'', bill_col = ''Total''\<rparr>"

definition shop_raw :: frame where
  "shop_raw =
     [(''Date'', [Text ''01/01/2024'', Text ''01/01/2024'', Text ''02/01/2024'', Text ''n/a'']),
      (''Time'', [Text ''08:15'', Text ''09:00'', Text ''08:30'', Null]),
      (''Store'', [Text ''Downtown'', Text ''Uptown'', Text ''Downtown'', Text ''Uptown'']),
      (''Product'', [Text ''Coffee'', Text ''Tea'', Text ''Coffee'', Text ''Tea'']),
      (''Total'', [Number 360, Number 15, Number 20, Number 7])]"

definition shop_dates :: "cell \<Rightarrow> timestamp option" where
  "shop_dates x =
     (if x = Text ''01/01/2024'' then Some (Timestamp 2024 January 1 0)
      else if x = Text ''02/01/2024'' then Some (Timestamp 2024 January 2 0)
      else if x = Text ''15/07/2024'' then Some (Timestamp 2024 July 15 0)
      else None)"

definition shop_days :: "timestamp \<Rightarrow> string" where
  "shop_days t = (if ts_day t = 2 then ''Tuesday'' else ''Monday'')"

definition shop_data :: frame where
  "shop_data =
     [(''Date'', [Text ''01/01/2024'', Text ''01/01/2024'', Text ''02/01/2024'', Text ''n/a'']),
      (''Time'', [Text ''08:15'', Text ''09:00'', Text ''08:30'', Null]),
      (''Store'', [Text ''Downtown'', Text ''Uptown'', Text ''Downtown'', Text ''Uptown'']),
      (''Product'', [Text ''Coffee'', Text ''Tea'', Text ''Coffee'', Text ''Tea'']),
      (''Total'', [Number 36, Number 15, Number 20, Number 7]),
      (''transaction_date'',
         [Stamp (Timestamp 2024 January 1 0), Stamp (Timestamp 2024 January 1 0),
          Stamp (Timestamp 2024 January 2 0), Null]),
      (''weekday'', [Text ''Monday'', Text ''Monday'', Text ''Tuesday'', Null]),
      (''Hour'', [Number 8, Number 9, Number 8, Number 12]),
      (''Day Name'', [Text ''Monday'', Text ''Monday'', Text ''Tuesday'', Null]),
      (''Month Name'', [Text ''January'', Text ''January'', Text ''January'', Null])]"

subsection \<open>Notions used to state the properties\<close>

text \<open>
  A name mentions a keyword when the keyword occurs somewhere in the lower-cased name.
  This is the specification side, stated without the scanning function.
\<close>

definition mentions :: "string list \<Rightarrow> string \<Rightarrow> bool" where
  "mentions keywords name =
     (\<exists>k \<in> set keywords. \<exists>before after. lower name = before @ k @ after)"

text \<open>
  \<open>chosen P fallback names c\<close>: \<open>c\<close> is the leftmost name satisfying \<open>P\<close>, or no name
  satisfies \<open>P\<close> and \<open>c\<close> is the name at the fallback position.
\<close>

definition chosen :: "(string \<Rightarrow> bool) \<Rightarrow> nat \<Rightarrow> string list \<Rightarrow> string \<Rightarrow> bool" where
  "chosen P fallback names c =
     ((\<exists>i < length names. P (names ! i) \<and> (\<forall>j < i. \<not> P (names ! j)) \<and> c = names ! i)
      \<or> ((\<forall>n \<in> set names. \<not> P n) \<and> fallback < length names \<and> c = names ! fallback))"

text \<open>The number a row of decimal digits denotes, most significant digit first.\<close>

definition decimal :: "string \<Rightarrow> nat" where
  "decimal ds = foldl (\<lambda>acc c. acc * 10 + digit_val c) 0 ds"

text \<open>The distinct hours present in the table, and the total of a view.\<close>

definition hours_present :: "frame \<Rightarrow> int list" where
  "hours_present data =
     remdups (concat (map (\<lambda>x. case x of Number h \<Rightarrow> [h] | _ \<Rightarrow> []) (the_col data ''Hour'')))"

definition view_total :: "view \<Rightarrow> int64" where
  "view_total v = sum_list (map snd v)"

text \<open>The rows of a frame at the given positions, in the given order.\<close>

definition pick :: "nat list \<Rightarrow> frame \<Rightarrow> frame" where
  "pick is data = map (\<lambda>(name, cells). (name, map (nth cells) is)) data"

text \<open>
  The grouped sums over the rows at the positions \<open>is\<close>, read from a key column and a
  value column of the whole table, and the result of grouping these rows: a group that
  cannot be added, then the key column as the value column, stop it.
\<close>

definition group_view :: "cell list \<Rightarrow> cell list \<Rightarrow> nat list \<Rightarrow> view" where
  "group_view keys vals is =
     map (\<lambda>k. (k, \<Sum>i \<leftarrow> filter (\<lambda>i. notna (keys ! i) \<and> keys ! i = k) is. amount (vals ! i)))
       (group_keys (map (nth keys) is))"

definition group_result :: "cell list \<Rightarrow> cell list \<Rightarrow> bool \<Rightarrow> nat list \<Rightarrow> py_error + view" where
  "group_result keys vals same is =
     (if \<exists>i \<in> set is. notna (keys ! i) \<and> \<not> summable (vals ! i) then Inl TypeError
      else if same then Inl ValueError
      else Inr (group_view keys vals is))"

section \<open>Properties\<close>

subsection \<open>Helper lemmas: strings and detection\<close>

lemma starts_with_iff: "starts_with p s \<longleftrightarrow> (\<exists>after. s = p @ after)"
  by (induction p s rule: starts_with.induct) auto

lemma contains_iff: "contains sub s \<longleftrightarrow> (\<exists>before after. s = before @ sub @ after)"
proof (induction s)
  case Nil
  then show ?case by auto
next
  case (Cons c cs)
  show ?case
  proof
    assume "contains sub (c # cs)"
    then consider "starts_with sub (c # cs)" | "contains sub cs" by auto
    then show "\<exists>before after. c # cs = before @ sub @ after"
    proof cases
      case 1
      then obtain after where "c # cs = sub @ after" by (auto simp: starts_with_iff)
      then have "c # cs = [] @ sub @ after" by simp
      then show ?thesis by blast
    next
      case 2
      then obtain before after where "cs = before @ sub @ after" using Cons.IH by auto
      then have "c # cs = (c # before) @ sub @ after" by simp
      then show ?thesis by blast
    qed
  next
    assume "\<exists>before after. c # cs = before @ sub @ after"
    then obtain before after where eq: "c # cs = before @ sub @ after" by auto
    show "contains sub (c # cs)"
    proof (cases before)
      case Nil
      with eq have "starts_with sub (c # cs)" by (auto simp: starts_with_iff)
      then show ?thesis by simp
    next
      case (Cons b bs)
      with eq have "cs = bs @ sub @ after" by simp
      then have "contains sub cs" using Cons.IH by blast
      then show ?thesis by simp
    qed
  qed
qed

lemma first_or_filter:
  assumes "names \<noteq> []" and "fallback < length names"
  shows "\<exists>c. first_or (filter P names) (item names (int fallback)) = Inr c
             \<and> chosen P fallback names c \<and> c \<in> set names"
proof (cases "filter P names")
  case Nil
  then have none: "\<forall>n \<in> set names. \<not> P n" by (simp add: filter_empty_conv)
  have "first_or (filter P names) (item names (int fallback)) = Inr (names ! fallback)"
    using Nil assms by (simp add: first_or_def item_def)
  moreover have "chosen P fallback names (names ! fallback)"
    using none assms by (simp add: chosen_def)
  ultimately show ?thesis using assms by auto
next
  case (Cons c cs)
  then have "\<exists>us vs. names = us @ c # vs \<and> (\<forall>u \<in> set us. \<not> P u) \<and> P c"
    by (simp add: filter_eq_Cons_iff) blast
  then obtain us vs where split: "names = us @ c # vs" "\<forall>u \<in> set us. \<not> P u" "P c"
    by blast
  have "chosen P fallback names c"
    unfolding chosen_def
  proof (intro disjI1 exI [of _ "length us"] conjI allI impI)
    show "length us < length names" using split by simp
    show "P (names ! length us)" using split by simp
    show "c = names ! length us" using split by simp
    fix j assume "j < length us"
    then show "\<not> P (names ! j)" using split by (simp add: nth_append)
  qed
  moreover have "c \<in> set names" using split by simp
  moreover have "first_or (filter P names) (item names (int fallback)) = Inr c"
    using Cons by (simp add: first_or_def)
  ultimately show ?thesis by blast
qed

lemma item_last: "names \<noteq> [] \<Longrightarrow> item names (- 1) = item names (int (length names - 1))"
  by (cases names) (auto simp: item_def)

lemma mentions_contains: "mentions ks name \<longleftrightarrow> (\<exists>k \<in> set ks. contains k (lower name))"
  by (simp add: mentions_def contains_iff)

lemma date_cols_mentions: "date_cols names = filter (mentions [''date'']) names"
  unfolding date_cols_def by (rule filter_cong) (auto simp: mentions_contains)

lemma time_cols_mentions: "time_cols names = filter (mentions [''time'']) names"
  unfolding time_cols_def by (rule filter_cong) (auto simp: mentions_contains)

lemma location_cols_mentions:
  "location_cols names = filter (mentions [''location'', ''store'']) names"
  unfolding location_cols_def by (rule filter_cong) (auto simp: mentions_contains)

lemma category_cols_mentions:
  "category_cols names = filter (mentions [''category'', ''product'']) names"
  unfolding category_cols_def by (rule filter_cong) (auto simp: mentions_contains)

lemma amount_cols_mentions:
  "amount_cols names = filter (mentions [''bill'', ''total'', ''amount'', ''price'']) names"
  unfolding amount_cols_def by (rule filter_cong) (auto simp: mentions_contains)

lemma resolve_chosen:
  assumes "names \<noteq> []"
  shows "\<exists>r. resolve names = Inr r
           \<and> chosen (mentions [''date'']) 0 names (date_col r)
           \<and> chosen (mentions [''time'']) (if length names > 1 then 1 else 0) names
               (time_col r)
           \<and> chosen (mentions [''location'', ''store''])
               (if length names > 2 then 2 else 0) names (location_col r)
           \<and> chosen (mentions [''category'', ''product''])
               (if length names > 3 then 3 else 0) names (category_col r)
           \<and> chosen (mentions [''bill'', ''total'', ''amount'', ''price''])
               (length names - 1) names (bill_col r)
           \<and> date_col r \<in> set names \<and> time_col r \<in> set names
           \<and> location_col r \<in> set names \<and> category_col r \<in> set names
           \<and> bill_col r \<in> set names"
proof -
  let ?t = "if length names > 1 then 1 else 0 :: nat"
  let ?l = "if length names > 2 then 2 else 0 :: nat"
  let ?c = "if length names > 3 then 3 else 0 :: nat"
  have pos: "0 < length names" using assms by simp
  obtain d where d: "first_or (date_cols names) (item names 0) = Inr d"
      "chosen (mentions [''date'']) 0 names d" "d \<in> set names"
    using first_or_filter [OF assms pos, of "mentions [''date'']"]
    by (auto simp: date_cols_mentions)
  have "?t < length names" using pos by simp
  from first_or_filter [OF assms this, of "mentions [''time'']"]
  obtain t where t: "first_or (time_cols names)
        (if length names > 1 then item names 1 else item names 0) = Inr t"
      "chosen (mentions [''time'']) ?t names t" "t \<in> set names"
    by (auto simp: time_cols_mentions split: if_splits)
  have "?l < length names" using pos by simp
  from first_or_filter [OF assms this, of "mentions [''location'', ''store'']"]
  obtain l where l: "first_or (location_cols names)
        (if length names > 2 then item names 2 else item names 0) = Inr l"
      "chosen (mentions [''location'', ''store'']) ?l names l" "l \<in> set names"
    by (auto simp: location_cols_mentions split: if_splits)
  have "?c < length names" using pos by simp
  from first_or_filter [OF assms this, of "mentions [''category'', ''product'']"]
  obtain c where c: "first_or (category_cols names)
        (if length names > 3 then item names 3 else item names 0) = Inr c"
      "chosen (mentions [''category'', ''product'']) ?c names c" "c \<in> set names"
    by (auto simp: category_cols_mentions split: if_splits)
  have "length names - 1 < length names" using pos by simp
  from first_or_filter [OF assms this, of "mentions [''bill'', ''total'', ''amount'', ''price'']"]
  obtain b where b: "first_or (amount_cols names) (item names (- 1)) = Inr b"
      "chosen (mentions [''bill'', ''total'', ''amount'', ''price''])
         (length names - 1) names b" "b \<in> set names"
    by (auto simp: amount_cols_mentions item_last [OF assms])
  have "resolve names = Inr \<lparr>date_col = d, time_col = t, location_col = l,
      category_col = c, bill_col = b\<rparr>"
    unfolding resolve_def by (simp only: d(1) t(1) l(1) c(1) b(1) sum.case)
  then show ?thesis using d t l c b by simp
qed

subsection \<open>Column detection\<close>

text \<open>
  C2: for every sequence of at least one column name, the detection returns all five
  working columns, each of them a name of the sequence, and never raises; on a one-column
  table every one of the five is that column.
\<close>

theorem resolve_complete:
  assumes "names \<noteq> []"
  shows "\<exists>r. resolve names = Inr r
           \<and> date_col r \<in> set names \<and> time_col r \<in> set names
           \<and> location_col r \<in> set names \<and> category_col r \<in> set names
           \<and> bill_col r \<in> set names
           \<and> (\<forall>n. names = [n] \<longrightarrow>
                 r = \<lparr>date_col = n, time_col = n, location_col = n, category_col = n,
                       bill_col = n\<rparr>)"
proof -
  from resolve_chosen [OF assms] obtain r where r: "resolve names = Inr r"
    "date_col r \<in> set names" "time_col r \<in> set names" "location_col r \<in> set names"
    "category_col r \<in> set names" "bill_col r \<in> set names"
    by blast
  have "r = \<lparr>date_col = n, time_col = n, location_col = n, category_col = n, bill_col = n\<rparr>"
    if "names = [n]" for n
    using r(2-6) that by (cases r) simp
  with r show ?thesis by blast
qed

theorem resolve_complete_witness:
  "[''Sales''] \<noteq> []
   \<and> (\<exists>r. resolve [''Sales''] = Inr r \<and> date_col r = ''Sales'' \<and> time_col r = ''Sales''
          \<and> location_col r = ''Sales'' \<and> category_col r = ''Sales''
          \<and> bill_col r = ''Sales'')"
  using resolve_complete [of "[''Sales'']"] by auto

text \<open>
  C7: each working column is the leftmost name that contains one of its keywords when
  lower-cased; when no name does, it is the name at a fixed position: 0 for the date,
  1 for the time (0 on a one-column table), 2 for the location (0 with fewer than three
  columns), 3 for the category (0 with fewer than four), the last one for the amount.
  On the columns A, B, C, D, E the result is A, B, C, D, E in this order.
\<close>

theorem resolve_first_match_or_position:
  assumes "names \<noteq> []"
  shows "(\<exists>r. resolve names = Inr r
           \<and> chosen (mentions [''date'']) 0 names (date_col r)
           \<and> chosen (mentions [''time'']) (if length names > 1 then 1 else 0) names
               (time_col r)
           \<and> chosen (mentions [''location'', ''store''])
               (if length names > 2 then 2 else 0) names (location_col r)
           \<and> chosen (mentions [''category'', ''product''])
               (if length names > 3 then 3 else 0) names (category_col r)
           \<and> chosen (mentions [''bill'', ''total'', ''amount'', ''price''])
               (length names - 1) names (bill_col r))
         \<and> resolve [''A'', ''B'', ''C'', ''D'', ''E'']
             = Inr \<lparr>date_col = ''A'', time_col = ''B'', location_col = ''C'',
                    category_col = ''D'', bill_col = ''E''\<rparr>"
proof
  show "resolve [''A'', ''B'', ''C'', ''D'', ''E'']
      = Inr \<lparr>date_col = ''A'', time_col = ''B'', location_col = ''C'',
             category_col = ''D'', bill_col = ''E''\<rparr>"
    by (simp add: resolve_def first_or_def item_def date_cols_def time_cols_def
        location_cols_def category_cols_def amount_cols_def lower_def lower_char_def)
  show "\<exists>r. resolve names = Inr r
           \<and> chosen (mentions [''date'']) 0 names (date_col r)
           \<and> chosen (mentions [''time'']) (if length names > 1 then 1 else 0) names
               (time_col r)
           \<and> chosen (mentions [''location'', ''store''])
               (if length names > 2 then 2 else 0) names (location_col r)
           \<and> chosen (mentions [''category'', ''product''])
               (if length names > 3 then 3 else 0) names (category_col r)
           \<and> chosen (mentions [''bill'', ''total'', ''amount'', ''price''])
               (length names - 1) names (bill_col r)"
    using resolve_chosen [OF assms] by blast
qed

theorem resolve_first_match_or_position_witness:
  "[''Id'', ''Sale Time'', ''STORE''] \<noteq> []
   \<and> (\<exists>r. resolve [''Id'', ''Sale Time'', ''STORE''] = Inr r
          \<and> chosen (mentions [''date'']) 0 [''Id'', ''Sale Time'', ''STORE''] (date_col r)
          \<and> chosen (mentions [''time''])
              (if length [''Id'', ''Sale Time'', ''STORE''] > 1 then 1 else 0)
              [''Id'', ''Sale Time'', ''STORE''] (time_col r)
          \<and> chosen (mentions [''location'', ''store''])
              (if length [''Id'', ''Sale Time'', ''STORE''] > 2 then 2 else 0)
              [''Id'', ''Sale Time'', ''STORE''] (location_col r)
          \<and> chosen (mentions [''category'', ''product''])
              (if length [''Id'', ''Sale Time'', ''STORE''] > 3 then 3 else 0)
              [''Id'', ''Sale Time'', ''STORE''] (category_col r)
          \<and> chosen (mentions [''bill'', ''total'', ''amount'', ''price''])
              (length [''Id'', ''Sale Time'', ''STORE''] - 1)
              [''Id'', ''Sale Time'', ''STORE''] (bill_col r))"
proof -
  have h: "[''Id'', ''Sale Time'', ''STORE''] \<noteq> []" by simp
  show ?thesis
    using h resolve_first_match_or_position [OF h] by blast
qed


subsection \<open>Helper lemmas: reading the hour\<close>

lemma digit_not_special:
  assumes "is_digit c"
  shows "\<not> is_space c" and "c \<noteq> CHR '':''" and "c \<noteq> CHR ''-''" and "c \<noteq> CHR ''+''"
  using assms by (auto simp: is_digit_def is_space_def less_eq_char_def)

lemma read_digits_all:
  "list_all is_digit ds \<Longrightarrow>
     read_digits acc b ds =
       (if ds = [] \<and> \<not> b then None
        else Some (foldl (\<lambda>acc c. acc * 10 + digit_val c) acc ds))"
  by (induction ds arbitrary: acc b) simp_all

lemma read_digits_digits:
  "list_all is_digit ds \<Longrightarrow> ds \<noteq> [] \<Longrightarrow>
     read_digits acc b ds = Some (foldl (\<lambda>acc c. acc * 10 + digit_val c) acc ds)"
  by (simp add: read_digits_all)

lemma strip_digits: "list_all is_digit ds \<Longrightarrow> strip ds = ds"
proof (cases ds rule: rev_cases)
  case Nil
  then show ?thesis by (simp add: strip_def)
next
  case (snoc ys y)
  assume all: "list_all is_digit ds"
  then have y: "\<not> is_space y" using snoc by (simp add: digit_not_special)
  have front: "dropWhile is_space ds = ds"
    using all by (cases ds) (auto simp: digit_not_special)
  show ?thesis using y snoc front by (simp add: strip_def)
qed

lemma split_first_digits:
  "list_all is_digit ds \<Longrightarrow> split_first (ds @ CHR '':'' # rest) = ds"
  unfolding split_first_def
  by (induction ds) (auto simp: digit_not_special)

lemma contains_colon: "contains '':'' s \<longleftrightarrow> CHR '':'' \<in> set s"
  by (induction s) auto

lemma py_int_digits:
  assumes "list_all is_digit ds" and "ds \<noteq> []"
  shows "py_int ds = Inr (int (decimal ds))"
proof -
  obtain c cs where ds: "ds = c # cs" using assms(2) by (cases ds) auto
  then have "is_digit c" using assms(1) by simp
  then have "c \<noteq> CHR ''-''" "c \<noteq> CHR ''+''" by (simp_all add: digit_not_special)
  moreover have "read_digits 0 False (c # cs) = Some (decimal ds)"
    using read_digits_digits [OF assms, of 0 False] ds by (simp add: decimal_def)
  ultimately show ?thesis
    using strip_digits [OF assms(1)] ds by (simp add: py_int_def)
qed

subsection \<open>The hour of a time cell\<close>

text \<open>
  C1, as the code has it: for every cell of the time column, a missing cell and a cell
  whose text has no colon give the hour 12; a cell whose text starts with decimal digits
  followed by a colon gives the number these digits denote. That number is not negative,
  and nothing bounds it by 23: the script applies no range check.
\<close>

theorem hour_of_default_or_prefix:
  "(\<not> notna x \<or> \<not> contains '':'' (str x) \<longrightarrow> hour_of x = Inr (Number 12))
   \<and> (notna x \<and> str x = ds @ '':'' @ rest \<and> ds \<noteq> [] \<and> list_all is_digit ds
        \<longrightarrow> hour_of x = Inr (Number (int (decimal ds))) \<and> 0 \<le> int (decimal ds))"
proof (intro conjI impI)
  assume "\<not> notna x \<or> \<not> contains '':'' (str x)"
  then show "hour_of x = Inr (Number 12)" by (auto simp: hour_of_def)
next
  assume h: "notna x \<and> str x = ds @ '':'' @ rest \<and> ds \<noteq> [] \<and> list_all is_digit ds"
  then have "contains '':'' (str x)" by (simp add: contains_colon)
  moreover have "split_first (str x) = ds" using h by (simp add: split_first_digits)
  ultimately show "hour_of x = Inr (Number (int (decimal ds)))"
    using h by (simp add: hour_of_def py_int_digits)
next
  show "0 \<le> int (decimal ds)" by simp
qed

theorem hour_of_default_or_prefix_witness:
  "hour_of Null = Inr (Number 12) \<and> hour_of (Number 8) = Inr (Number 12)
   \<and> hour_of (Text ''08:15'') = Inr (Number 8)"
proof -
  have "hour_of Null = Inr (Number 12)"
    using hour_of_default_or_prefix [of Null] by simp
  moreover have "hour_of (Number 8) = Inr (Number 12)"
    using hour_of_default_or_prefix [of "Number 8"]
    by (simp add: digits.simps digit_char_def)
  moreover have "hour_of (Text ''08:15'') = Inr (Number 8)"
    using hour_of_default_or_prefix [of "Text ''08:15''" "''08''" "''15''"]
    by (simp add: is_digit_def decimal_def digit_val_def less_eq_char_def)
  ultimately show ?thesis by simp
qed

text \<open>
  C1 as stated fails: the text \<^verbatim>\<open>25:00\<close> gives the hour 25, outside 0 to 23.
\<close>

theorem hour_of_out_of_range: "hour_of (Text ''25:00'') = Inr (Number 25)"
  by (simp add: hour_of_def py_int_def split_first_def strip_def is_space_def is_digit_def
      digit_val_def)

subsection \<open>Helper lemmas: data frames\<close>

lemma map_of_set_col: "map_of (set_col data n c) = (map_of data)(n \<mapsto> c)"
  by (induction data n c rule: set_col.induct) (auto simp: fun_eq_iff)

lemma the_col_set_col:
  "the_col (set_col data n c) m = (if m = n then c else the_col data m)"
  by (simp add: the_col_def map_of_set_col)

lemma columns_set_col: "set (columns (set_col data n c)) = insert n (set (columns data))"
  by (induction data n c rule: set_col.induct) (auto simp: columns_def)

lemma set_col_twice: "set_col (set_col data n c) n c' = set_col data n c'"
  by (induction data n c rule: set_col.induct) auto

lemma nrows_set_col: "length c = nrows data \<Longrightarrow> nrows (set_col data n c) = nrows data"
  by (cases data) (auto simp: nrows_def)

lemma frame_ok_set_col:
  assumes "frame_ok data" and "length c = nrows data"
  shows "frame_ok (set_col data n c)"
proof -
  have "list_all (\<lambda>(name, cells). length cells = k) (set_col d n c)"
    if "list_all (\<lambda>(name, cells). length cells = k) d" "length c = k" for d k
    using that by (induction d n c rule: set_col.induct) auto
  from this [of "nrows data" data] assms show ?thesis
    by (simp add: frame_ok_def nrows_set_col)
qed

lemma length_the_col:
  assumes "frame_ok data" and "n \<in> set (columns data)"
  shows "length (the_col data n) = nrows data"
proof -
  from assms(2) obtain c where c: "map_of data n = Some c"
    by (auto simp: columns_def weak_map_of_SomeI dest!: weak_map_of_SomeI)
  then have "(n, c) \<in> set data" by (rule map_of_SomeD)
  then have "length c = nrows data" using assms(1) by (auto simp: frame_ok_def list_all_iff)
  then show ?thesis using c by (simp add: the_col_def)
qed

lemma apply_col_length: "apply_col f xs = Inr ys \<Longrightarrow> length ys = length xs"
  by (induction xs arbitrary: ys) (auto split: sum.splits)

lemma apply_col_total:
  "(\<forall>x \<in> set xs. \<exists>y. f x = Inr y) \<Longrightarrow> \<exists>ys. apply_col f xs = Inr ys"
  by (induction xs) (auto split: sum.splits)

lemma apply_col_fails:
  "apply_col f xs = Inl e \<Longrightarrow> \<exists>x \<in> set xs. f x = Inl e"
  by (induction xs) (auto split: sum.splits)

lemma loc_assign_eq_mask:
  "loc_assign (eq_mask cells v) w cells = map (\<lambda>x. if x = v \<and> notna v then w else x) cells"
  by (induction cells) (auto simp: loc_assign_def eq_mask_def)

lemma the_col_absent: "n \<notin> set (columns data) \<Longrightarrow> the_col data n = []"
  by (simp add: the_col_def columns_def map_of_eq_None_iff [THEN iffD2])

lemma correct_anomaly_col:
  "the_col (correct_anomaly bill data) bill
     = map (\<lambda>x. if x = Number 360 then Number 36 else x) (the_col data bill)"
proof (cases "bill \<in> set (columns data)")
  case True
  then show ?thesis by (simp add: correct_anomaly_def the_col_set_col loc_assign_eq_mask)
next
  case False
  then show ?thesis by (simp add: correct_anomaly_def the_col_absent)
qed

subsection \<open>The correction of the amount 360\<close>

text \<open>
  C3: the correction rewrites every cell of the amount column that equals the number 360
  to 36 and leaves every other cell of the table as it is; applying it a second time
  changes nothing.
\<close>

theorem correct_anomaly_rewrites_360:
  "the_col (correct_anomaly bill data) bill
     = map (\<lambda>x. if x = Number 360 then Number 36 else x) (the_col data bill)
   \<and> (\<forall>name. name \<noteq> bill \<longrightarrow> the_col (correct_anomaly bill data) name = the_col data name)
   \<and> columns (correct_anomaly bill data) = columns data
   \<and> correct_anomaly bill (correct_anomaly bill data) = correct_anomaly bill data"
proof (intro conjI allI impI)
  show "the_col (correct_anomaly bill data) bill
     = map (\<lambda>x. if x = Number 360 then Number 36 else x) (the_col data bill)"
    by (rule correct_anomaly_col)
  show "the_col (correct_anomaly bill data) name = the_col data name" if "name \<noteq> bill" for name
    using that by (simp add: correct_anomaly_def the_col_set_col)
  show cols: "columns (correct_anomaly bill data) = columns data"
  proof -
    have "map fst (set_col d n c) = map fst d" if "n \<in> fst ` set d" for d n c
      using that by (induction d n c rule: set_col.induct) auto
    then show ?thesis by (auto simp: correct_anomaly_def columns_def)
  qed
  show "correct_anomaly bill (correct_anomaly bill data) = correct_anomaly bill data"
  proof (cases "bill \<in> set (columns data)")
    case False
    then show ?thesis by (simp add: correct_anomaly_def)
  next
    case True
    let ?fix = "\<lambda>x. if x = Number 360 then Number 36 else x"
    have once: "correct_anomaly bill data = set_col data bill (map ?fix (the_col data bill))"
      using True by (simp add: correct_anomaly_def loc_assign_eq_mask)
    have "correct_anomaly bill (correct_anomaly bill data)
        = set_col (correct_anomaly bill data) bill
            (map ?fix (the_col (correct_anomaly bill data) bill))"
      using True cols by (simp add: correct_anomaly_def [of bill "correct_anomaly bill data"]
          loc_assign_eq_mask)
    also have "\<dots> = set_col data bill (map ?fix (map ?fix (the_col data bill)))"
      by (simp add: correct_anomaly_col) (simp add: once set_col_twice)
    also have "map ?fix (map ?fix (the_col data bill)) = map ?fix (the_col data bill)"
      by simp
    finally show ?thesis using once by simp
  qed
qed

theorem correct_anomaly_rewrites_360_witness:
  "''Store'' \<noteq> ''Total''
   \<and> the_col (correct_anomaly ''Total'' [(''Store'', [Text ''A'', Text ''B'', Text ''C'']),
       (''Total'', [Number 360, Number 36, Number 15])]) ''Total''
     = [Number 36, Number 36, Number 15]
   \<and> the_col (correct_anomaly ''Total'' [(''Store'', [Text ''A'', Text ''B'', Text ''C'']),
       (''Total'', [Number 360, Number 36, Number 15])]) ''Store''
     = [Text ''A'', Text ''B'', Text ''C'']"
  using correct_anomaly_rewrites_360 [of "''Total''"
      "[(''Store'', [Text ''A'', Text ''B'', Text ''C'']),
        (''Total'', [Number 360, Number 36, Number 15])]"]
  by (simp add: the_col_def)


subsection \<open>Helper lemmas: the preprocessing steps\<close>

lemma columns_correct_anomaly: "columns (correct_anomaly bill data) = columns data"
proof -
  have "map fst (set_col d n c) = map fst d" if "n \<in> fst ` set d" for d n c
    using that by (induction d n c rule: set_col.induct) auto
  then show ?thesis by (auto simp: correct_anomaly_def columns_def)
qed

lemma length_loc_assign: "length (loc_assign (eq_mask cells v) w cells) = length cells"
  by (simp add: loc_assign_eq_mask)

lemma add_dates_ok:
  assumes "frame_ok data" and "date \<in> set (columns data)"
  shows "frame_ok (add_dates to_datetime day_name date data)"
    and "nrows (add_dates to_datetime day_name date data) = nrows data"
    and "set (columns (add_dates to_datetime day_name date data))
           = {''transaction_date'', ''weekday''} \<union> set (columns data)"
proof -
  let ?d1 = "set_col data ''transaction_date'' (map (coerce to_datetime) (the_col data date))"
  have len: "length (map (coerce to_datetime) (the_col data date)) = nrows data"
    using assms by (simp add: length_the_col)
  have ok1: "frame_ok ?d1" and n1: "nrows ?d1 = nrows data"
    using assms(1) len by (simp_all add: frame_ok_set_col nrows_set_col)
  have len2: "length (map (dt day_name) (the_col ?d1 ''transaction_date'')) = nrows ?d1"
    using len n1 by (simp add: the_col_set_col)
  show "frame_ok (add_dates to_datetime day_name date data)"
    unfolding add_dates_def Let_def using ok1 len2 by (rule frame_ok_set_col)
  show "nrows (add_dates to_datetime day_name date data) = nrows data"
    unfolding add_dates_def Let_def using len2 n1 by (simp add: nrows_set_col)
  show "set (columns (add_dates to_datetime day_name date data))
           = {''transaction_date'', ''weekday''} \<union> set (columns data)"
    unfolding add_dates_def Let_def by (auto simp: columns_set_col)
qed

lemma add_hour_ok:
  assumes "frame_ok data" and "add_hour time data = Inr out"
  shows "frame_ok out" and "nrows out = nrows data"
    and "set (columns out) = insert ''Hour'' (set (columns data))"
proof -
  obtain hours where out: "out = set_col data ''Hour'' hours" and len: "length hours = nrows data"
  proof (cases "time \<in> set (columns data)")
    case True
    then obtain hours where h: "apply_col hour_of (the_col data time) = Inr hours"
        "out = set_col data ''Hour'' hours"
      using assms(2) by (auto simp: add_hour_def split: sum.splits)
    then have "length hours = nrows data"
      using apply_col_length [OF h(1)] True assms(1) by (simp add: length_the_col)
    with h that show ?thesis by blast
  next
    case False
    then have "out = set_col data ''Hour'' (replicate (nrows data) (Number 12))"
      using assms(2) by (simp add: add_hour_def)
    with that show ?thesis by simp
  qed
  show "frame_ok out" using out len assms(1) by (simp add: frame_ok_set_col)
  show "nrows out = nrows data" using out len by (simp add: nrows_set_col)
  show "set (columns out) = insert ''Hour'' (set (columns data))"
    using out by (simp add: columns_set_col)
qed

lemma correct_anomaly_ok:
  assumes "frame_ok data"
  shows "frame_ok (correct_anomaly bill data)"
    and "nrows (correct_anomaly bill data) = nrows data"
proof -
  have "length (loc_assign (eq_mask (the_col data bill) (Number 360)) (Number 36)
      (the_col data bill)) = nrows data" if "bill \<in> set (columns data)"
    using that assms by (simp add: length_loc_assign length_the_col)
  then show "frame_ok (correct_anomaly bill data)"
    and "nrows (correct_anomaly bill data) = nrows data"
    using assms by (simp_all add: correct_anomaly_def frame_ok_set_col nrows_set_col)
qed

lemma add_names_ok:
  assumes "frame_ok data" and "''weekday'' \<in> set (columns data)"
    and "''transaction_date'' \<in> set (columns data)"
  shows "frame_ok (add_names data)" and "nrows (add_names data) = nrows data"
    and "set (columns (add_names data)) = {''Day Name'', ''Month Name''} \<union> set (columns data)"
proof -
  let ?d1 = "set_col data ''Day Name'' (the_col data ''weekday'')"
  let ?d2 = "set_col ?d1 ''Month Name'' (map (dt month_name) (the_col ?d1 ''transaction_date''))"
  let ?d3 = "set_col ?d2 ''Day Name'' (map (categorical weekly_order) (the_col ?d2 ''Day Name''))"
  let ?d4 = "set_col ?d3 ''Month Name'' (map (categorical month_order) (the_col ?d3 ''Month Name''))"
  have eq: "add_names data = ?d4" by (simp add: add_names_def Let_def)
  have l1: "length (the_col data ''weekday'') = nrows data"
    using assms by (simp add: length_the_col)
  have ok1: "frame_ok ?d1" and n1: "nrows ?d1 = nrows data"
    using assms(1) l1 by (simp_all add: frame_ok_set_col nrows_set_col)
  have l2: "length (map (dt month_name) (the_col ?d1 ''transaction_date'')) = nrows ?d1"
    using assms n1 by (simp add: the_col_set_col length_the_col)
  have ok2: "frame_ok ?d2" and n2: "nrows ?d2 = nrows data"
    using ok1 l2 n1 by (simp_all add: frame_ok_set_col nrows_set_col)
  have l3: "length (map (categorical weekly_order) (the_col ?d2 ''Day Name'')) = nrows ?d2"
    using l1 n2 by (simp add: the_col_set_col)
  have ok3: "frame_ok ?d3" and n3: "nrows ?d3 = nrows data"
    using ok2 l3 n2 by (simp_all only: frame_ok_set_col nrows_set_col)
  have l4: "length (map (categorical month_order) (the_col ?d3 ''Month Name'')) = nrows ?d3"
    using l2 n1 n3 by (simp add: the_col_set_col)
  show "frame_ok (add_names data)" unfolding eq using ok3 l4 by (rule frame_ok_set_col)
  show "nrows (add_names data) = nrows data" unfolding eq using l4 n3 by (simp only: nrows_set_col)
  show "set (columns (add_names data)) = {''Day Name'', ''Month Name''} \<union> set (columns data)"
    unfolding eq by (auto simp: columns_set_col)
qed

lemma add_names_month:
  shows "the_col (add_names data) ''Month Name''
     = map (\<lambda>x. categorical month_order (dt month_name x)) (the_col data ''transaction_date'')"
    and "the_col (add_names data) ''transaction_date'' = the_col data ''transaction_date''"
  by (simp_all add: add_names_def Let_def the_col_set_col)

lemma month_cell:
  "categorical month_order (dt month_name x)
     = (case x of
          Stamp t \<Rightarrow>
            if ts_month t \<in> {January, February, March, April, May, June}
            then Text (month_name t) else Null
        | _ \<Rightarrow> Null)"
proof (cases x)
  case (Stamp t)
  then show ?thesis
    by (cases "ts_month t") (simp_all add: categorical_def dt_def month_name_def month_order_def)
qed (simp_all add: categorical_def dt_def)

lemma enrich_Inr:
  assumes "enrich to_datetime day_name r data = Inr out"
  obtains mid where "date_col r \<in> set (columns data)"
    and "add_hour (time_col r) (add_dates to_datetime day_name (date_col r) data) = Inr mid"
    and "out = add_names (correct_anomaly (bill_col r) mid)"
  using assms by (auto simp: enrich_def split: if_splits sum.splits)

lemma enrich_ok:
  assumes "frame_ok data" and "enrich to_datetime day_name r data = Inr out"
  shows "frame_ok out" and "nrows out = nrows data"
    and "set (columns out)
          = {''transaction_date'', ''weekday'', ''Hour'', ''Day Name'', ''Month Name''}
            \<union> set (columns data)"
proof -
  from assms(2) obtain mid where d: "date_col r \<in> set (columns data)"
    and mid: "add_hour (time_col r) (add_dates to_datetime day_name (date_col r) data) = Inr mid"
    and out: "out = add_names (correct_anomaly (bill_col r) mid)"
    by (rule enrich_Inr)
  let ?d1 = "add_dates to_datetime day_name (date_col r) data"
  note d1 = add_dates_ok [OF assms(1) d, of to_datetime day_name]
  note d2 = add_hour_ok [OF d1(1) mid]
  let ?d3 = "correct_anomaly (bill_col r) mid"
  note d3 = correct_anomaly_ok [OF d2(1), of "bill_col r"]
  have c3: "set (columns ?d3) = insert ''Hour'' ({''transaction_date'', ''weekday''} \<union> set (columns data))"
    using d2(3) d1(3) by (simp add: columns_correct_anomaly)
  then have w: "''weekday'' \<in> set (columns ?d3)" and t: "''transaction_date'' \<in> set (columns ?d3)"
    by simp_all
  note d4 = add_names_ok [OF d3(1) w t]
  show "frame_ok out" using d4(1) out by simp
  show "nrows out = nrows data" using d4(2) d3(2) d2(2) d1(2) out by simp
  show "set (columns out)
          = {''transaction_date'', ''weekday'', ''Hour'', ''Day Name'', ''Month Name''}
            \<union> set (columns data)"
    using d4(3) c3 out by auto
qed

lemma shop_enriched: "enrich shop_dates shop_days shop_roles shop_raw = Inr shop_data"
  by code_simp

lemma shop_raw_ok: "frame_ok shop_raw"
  by code_simp

subsection \<open>The rows after preprocessing\<close>

text \<open>
  Where preprocessing returns a table, it has as many rows as the table before it, and
  the derived columns (parsed date, weekday, day name, month name, hour) are there with
  one cell for every row, as are the columns of the input. A date that does not parse
  costs no row. Preprocessing returns a table whenever the date column is present and the
  hour of every time cell can be read.
\<close>

lemma enrich_keeps_rows:
  assumes "frame_ok data"
  shows "(enrich to_datetime day_name r data = Inr out \<longrightarrow>
            nrows out = nrows data
            \<and> (\<forall>name \<in> {''transaction_date'', ''weekday'', ''Day Name'', ''Month Name'', ''Hour''}
                  \<union> set (columns data).
                  name \<in> set (columns out) \<and> length (the_col out name) = nrows data))
         \<and> (date_col r \<in> set (columns data)
              \<and> (\<forall>x \<in> set (the_col (add_dates to_datetime day_name (date_col r) data) (time_col r)).
                    \<exists>h. hour_of x = Inr h)
            \<longrightarrow> (\<exists>out. enrich to_datetime day_name r data = Inr out))"
proof (intro conjI impI)
  assume e: "enrich to_datetime day_name r data = Inr out"
  note ok = enrich_ok [OF assms e]
  show "nrows out = nrows data" by (rule ok(2))
  show "\<forall>name \<in> {''transaction_date'', ''weekday'', ''Day Name'', ''Month Name'', ''Hour''}
                  \<union> set (columns data).
          name \<in> set (columns out) \<and> length (the_col out name) = nrows data"
  proof
    fix name
    assume "name \<in> {''transaction_date'', ''weekday'', ''Day Name'', ''Month Name'', ''Hour''}
                  \<union> set (columns data)"
    then have "name \<in> set (columns out)" using ok(3) by auto
    then show "name \<in> set (columns out) \<and> length (the_col out name) = nrows data"
      using length_the_col [OF ok(1)] ok(2) by simp
  qed
next
  let ?d1 = "add_dates to_datetime day_name (date_col r) data"
  assume h: "date_col r \<in> set (columns data)
      \<and> (\<forall>x \<in> set (the_col ?d1 (time_col r)). \<exists>h. hour_of x = Inr h)"
  then obtain hours where "apply_col hour_of (the_col ?d1 (time_col r)) = Inr hours"
    using apply_col_total [of "the_col ?d1 (time_col r)" hour_of] by blast
  then have "\<exists>mid. add_hour (time_col r) ?d1 = Inr mid"
    by (simp add: add_hour_def)
  then show "\<exists>out. enrich to_datetime day_name r data = Inr out"
    using h by (auto simp: enrich_def)
qed

lemma shop_keeps_rows:
  "frame_ok shop_raw \<and> enrich shop_dates shop_days shop_roles shop_raw = Inr shop_data
   \<and> nrows shop_data = nrows shop_raw
   \<and> ''Hour'' \<in> set (columns shop_data) \<and> length (the_col shop_data ''Hour'') = nrows shop_raw"
  using enrich_keeps_rows [OF shop_raw_ok, of shop_dates shop_days shop_roles shop_data]
    shop_enriched shop_raw_ok
  by simp

subsection \<open>Month names\<close>

text \<open>
  C6, as the code has it: after preprocessing, the month name of a row is the name of the
  month of its parsed date when that month is January to June; it is missing when the
  month is July to December and when the parsed date is missing.
\<close>

theorem month_name_first_half:
  assumes "enrich to_datetime day_name r data = Inr out"
  shows "the_col out ''Month Name''
     = map (\<lambda>x. case x of
                  Stamp t \<Rightarrow>
                    if ts_month t \<in> {January, February, March, April, May, June}
                    then Text (month_name t) else Null
                | _ \<Rightarrow> Null)
         (the_col out ''transaction_date'')"
proof -
  from assms obtain mid where out: "out = add_names (correct_anomaly (bill_col r) mid)"
    by (rule enrich_Inr)
  have "the_col out ''transaction_date''
      = the_col (correct_anomaly (bill_col r) mid) ''transaction_date''"
    unfolding out by (rule add_names_month(2))
  moreover have "the_col out ''Month Name''
      = map (\<lambda>x. categorical month_order (dt month_name x))
          (the_col (correct_anomaly (bill_col r) mid) ''transaction_date'')"
    unfolding out by (rule add_names_month(1))
  ultimately show ?thesis by (simp add: month_cell)
qed

theorem month_name_first_half_witness:
  "enrich shop_dates shop_days shop_roles shop_raw = Inr shop_data
   \<and> the_col shop_data ''Month Name''
       = [Text ''January'', Text ''January'', Text ''January'', Null]"
  using month_name_first_half [OF shop_enriched] shop_enriched
  by (simp add: shop_data_def the_col_def month_name_def)

text \<open>
  C6 as stated fails: a sale of 15 July 2024 has a parsed date and a missing month name.
\<close>

theorem month_name_july_is_null:
  "map_sum id (\<lambda>out. (the_col out ''transaction_date'', the_col out ''Month Name''))
     (enrich shop_dates shop_days shop_roles
        [(''Date'', [Text ''15/07/2024'']), (''Time'', [Text ''08:15'']),
         (''Store'', [Text ''Downtown'']), (''Product'', [Text ''Coffee'']),
         (''Total'', [Number 4])])
   = Inr ([Stamp (Timestamp 2024 July 15 0)], [Null])"
  by code_simp

subsection \<open>How preprocessing stops\<close>

lemma enrich_missing_date_column:
  "enrich to_datetime day_name r data = Inl MissingDateColumn
     \<longleftrightarrow> date_col r \<notin> set (columns data)"
  by (auto simp: enrich_def split: sum.splits)

lemma enrich_preprocessing_error:
  assumes "enrich to_datetime day_name r data = Inl (PreprocessingError e)"
  shows "\<exists>x \<in> set (the_col (add_dates to_datetime day_name (date_col r) data) (time_col r)).
           hour_of x = Inl e"
proof -
  from assms have "add_hour (time_col r) (add_dates to_datetime day_name (date_col r) data) = Inl e"
    by (auto simp: enrich_def split: if_splits sum.splits)
  then have "apply_col hour_of
      (the_col (add_dates to_datetime day_name (date_col r) data) (time_col r)) = Inl e"
    by (auto simp: add_hour_def split: if_splits sum.splits)
  then show ?thesis by (rule apply_col_fails)
qed

subsection \<open>Time cells that stop preprocessing\<close>

text \<open>
  C9 at a time cell holding a date and a time: the text before the first colon is
  \<^verbatim>\<open>2024-01-01 08\<close>, \<^verbatim>\<open>int\<close> raises, and preprocessing stops with the error of the
  handler instead of giving the row the hour 12.
\<close>

theorem enrich_stops_on_time_text:
  "enrich shop_dates shop_days shop_roles
     [(''Date'', [Text ''01/01/2024'']), (''Time'', [Text ''2024-01-01 08:15:00'']),
      (''Store'', [Text ''Downtown'']), (''Product'', [Text ''Coffee'']),
      (''Total'', [Number 4])]
   = Inl (PreprocessingError ValueError)"
  by code_simp

text \<open>
  C8 at a table of two sales whose second time cell is the text \<^verbatim>\<open>ab:cd\<close>: the first
  row gets the hour 12, \<^verbatim>\<open>int\<close> raises on the second, and preprocessing returns no
  table at all, where the rows were to be kept with the hour 12.
\<close>

theorem enrich_returns_no_table:
  "enrich shop_dates shop_days shop_roles
     [(''Date'', [Text ''01/01/2024'', Text ''n/a'']), (''Time'', [Null, Text ''ab:cd'']),
      (''Store'', [Text ''Downtown'', Text ''Uptown'']), (''Product'', [Text ''Coffee'', Text ''Tea'']),
      (''Total'', [Number 4, Number 5])]
   = Inl (PreprocessingError ValueError)"
  by code_simp


subsection \<open>Helper lemmas: selecting rows\<close>

lemma select_map: "select (map p xs) (map g xs) = map g (filter p xs)"
  by (induction xs) (simp_all add: select_def)

lemma map_of_pick:
  "map_of (pick is data) name = map_option (\<lambda>cells. map (nth cells) is) (map_of data name)"
  by (induction data) (auto simp: pick_def)

lemma getcol_pick:
  "getcol (pick is data) name
     = (case getcol data name of Inl e \<Rightarrow> Inl e | Inr cells \<Rightarrow> Inr (map (nth cells) is))"
  by (simp add: getcol_def map_of_pick split: option.splits)

lemma take_rows_pick: "take_rows (map p is) (pick is data) = pick (filter p is) data"
  by (simp add: take_rows_def pick_def select_map split_def)

lemma pick_all:
  assumes "frame_ok data"
  shows "pick [0..<nrows data] data = data"
proof -
  have "map (nth cells) [0..<nrows data] = cells" if "(name, cells) \<in> set data" for name cells
  proof -
    have "length cells = nrows data" using that assms by (auto simp: frame_ok_def list_all_iff)
    then show ?thesis using map_nth [of cells] by simp
  qed
  then have "map (\<lambda>(name, cells). (name, map (nth cells) [0..<nrows data])) data = map (\<lambda>x. x) data"
    by (intro map_cong) auto
  then show ?thesis by (simp add: pick_def)
qed

lemma getcol_the_col: "getcol data name = Inr cells \<Longrightarrow> the_col data name = cells"
  by (simp add: getcol_def the_col_def split: option.splits)

lemma getcol_present: "name \<in> set (columns data) \<Longrightarrow> getcol data name = Inr (the_col data name)"
  by (auto simp: getcol_def the_col_def columns_def map_of_eq_None_iff split: option.splits)

lemma where_eq_pick:
  "where_eq (pick is data) name v
     = (case getcol data name of
          Inl e \<Rightarrow> Inl e
        | Inr cells \<Rightarrow> Inr (pick (filter (\<lambda>i. notna (cells ! i) \<and> cells ! i = v) is) data))"
  by (simp add: where_eq_def getcol_pick eq_mask_def take_rows_pick comp_def split: sum.splits)

lemma group_sums_all:
  "group_sums keys vals ks =
     (if \<forall>k \<in> set ks. list_all summable (select (eq_mask keys k) vals)
      then Inr (map (\<lambda>k. (k, sum_list (map amount (select (eq_mask keys k) vals)))) ks)
      else Inl TypeError)"
  by (induction ks) (auto simp: sum_cells_def)

lemma groupby_sum_pick:
  "groupby_sum (pick is data) by val
     = (case getcol data by of
          Inl e \<Rightarrow> Inl e
        | Inr keys \<Rightarrow>
       (case getcol data val of
          Inl e \<Rightarrow> Inl e
        | Inr vals \<Rightarrow> group_result keys vals (by = val) is))"
proof (cases "getcol data by")
  case (Inl e)
  then show ?thesis by (simp add: groupby_sum_def getcol_pick)
next
  case keys: (Inr keys)
  show ?thesis
  proof (cases "getcol data val")
    case (Inl e)
    then show ?thesis using keys by (simp add: groupby_sum_def getcol_pick)
  next
    case vals: (Inr vals)
    let ?rows = "\<lambda>k. filter (\<lambda>i. notna (keys ! i) \<and> keys ! i = k) is"
    have sel: "select (eq_mask (map (nth keys) is) k) (map (nth vals) is) = map (nth vals) (?rows k)"
      for k
      by (simp add: eq_mask_def select_map comp_def)
    have ok: "(\<forall>k \<in> set (group_keys (map (nth keys) is)). list_all summable (map (nth vals) (?rows k)))
        \<longleftrightarrow> \<not> (\<exists>i \<in> set is. notna (keys ! i) \<and> \<not> summable (vals ! i))"
      by (auto simp: group_keys_def list_all_iff)
    show ?thesis
      using keys vals
      by (simp add: groupby_sum_def getcol_pick group_sums_all sel ok group_result_def
          group_view_def comp_def)
  qed
qed

subsection \<open>Helper lemmas: the daily view in terms of row positions\<close>

lemma daily_sums_pick:
  "daily_sums r (pick is data) loc h =
     (case (if loc \<noteq> Text ''All Locations'' then getcol data (location_col r) else Inr []) of
        Inl e \<Rightarrow> Inl e
      | Inr ls \<Rightarrow>
     (case getcol data ''Hour'' of
        Inl e \<Rightarrow> Inl e
      | Inr hs \<Rightarrow>
     (case getcol data ''transaction_date'' of
        Inl e \<Rightarrow> Inl e
      | Inr ds \<Rightarrow>
     (case getcol data (bill_col r) of
        Inl e \<Rightarrow> Inl e
      | Inr vs \<Rightarrow>
          group_result ds vs (''transaction_date'' = bill_col r)
            (filter (\<lambda>i. notna (hs ! i) \<and> hs ! i = Number h)
               (filter (\<lambda>i. loc = Text ''All Locations'' \<or> notna (ls ! i) \<and> ls ! i = loc) is))))))"
  by (simp add: daily_sums_def where_eq_pick groupby_sum_pick split: sum.splits)

lemma daily_sums_cases:
  obtains (fails) e where "\<And>is. daily_sums r (pick is data) loc h = Inl e"
  | (grouped) "\<And>is. daily_sums r (pick is data) loc h =
        group_result (the_col data ''transaction_date'') (the_col data (bill_col r))
          (''transaction_date'' = bill_col r)
          (filter (\<lambda>i. notna (the_col data ''Hour'' ! i) \<and> the_col data ''Hour'' ! i = Number h)
             (filter (\<lambda>i. loc = Text ''All Locations''
                  \<or> notna (the_col data (location_col r) ! i)
                    \<and> the_col data (location_col r) ! i = loc) is))"
    and "getcol data ''Hour'' = Inr (the_col data ''Hour'')"
    and "getcol data ''transaction_date'' = Inr (the_col data ''transaction_date'')"
    and "getcol data (bill_col r) = Inr (the_col data (bill_col r))"
proof (cases "if loc \<noteq> Text ''All Locations'' then getcol data (location_col r) else Inr []")
  case (Inl e)
  then have "daily_sums r (pick is data) loc h = Inl e" for "is"
    by (simp add: daily_sums_pick)
  then show ?thesis by (rule fails)
next
  case ls: (Inr ls)
  show ?thesis
  proof (cases "getcol data ''Hour''")
    case (Inl e)
    then have "daily_sums r (pick is data) loc h = Inl e" for "is"
      using ls by (simp add: daily_sums_pick)
    then show ?thesis by (rule fails)
  next
    case hs: (Inr hs)
    show ?thesis
    proof (cases "getcol data ''transaction_date''")
      case (Inl e)
      then have "daily_sums r (pick is data) loc h = Inl e" for "is"
        using ls hs by (simp add: daily_sums_pick)
      then show ?thesis by (rule fails)
    next
      case ds: (Inr ds)
      show ?thesis
      proof (cases "getcol data (bill_col r)")
        case (Inl e)
        then have "daily_sums r (pick is data) loc h = Inl e" for "is"
          using ls hs ds by (simp add: daily_sums_pick)
        then show ?thesis by (rule fails)
      next
        case vs: (Inr vs)
        have l: "loc \<noteq> Text ''All Locations'' \<Longrightarrow> the_col data (location_col r) = ls"
          using ls by (simp add: getcol_the_col)
        note cols = getcol_the_col [OF hs] getcol_the_col [OF ds] getcol_the_col [OF vs]
        have "daily_sums r (pick is data) loc h =
          group_result (the_col data ''transaction_date'') (the_col data (bill_col r))
            (''transaction_date'' = bill_col r)
            (filter (\<lambda>i. notna (the_col data ''Hour'' ! i) \<and> the_col data ''Hour'' ! i = Number h)
               (filter (\<lambda>i. loc = Text ''All Locations''
                    \<or> notna (the_col data (location_col r) ! i)
                      \<and> the_col data (location_col r) ! i = loc) is))" for "is"
        proof (cases "loc = Text ''All Locations''")
          case True
          then show ?thesis using ls hs ds vs by (simp add: daily_sums_pick cols)
        next
          case False
          then show ?thesis using ls hs ds vs l by (simp add: daily_sums_pick cols)
        qed
        then show ?thesis using hs ds vs cols by (intro grouped) simp_all
      qed
    qed
  qed
qed

subsection \<open>Helper lemmas: sums over groups\<close>

lemma sum_list_one_key:
  "distinct ks \<Longrightarrow>
     (\<Sum>k \<leftarrow> ks. if f x = k then g x else (0::'a::comm_monoid_add)) = (if f x \<in> set ks then g x else 0)"
  by (induction ks) auto

lemma sum_list_over_keys:
  assumes "distinct ks"
  shows "(\<Sum>k \<leftarrow> ks. \<Sum>i \<leftarrow> filter (\<lambda>i. f i = k) xs. g i)
           = (\<Sum>i \<leftarrow> filter (\<lambda>i. f i \<in> set ks) xs. (g i :: 'a::comm_monoid_add))"
proof (induction xs)
  case Nil
  then show ?case by simp
next
  case (Cons x xs)
  have "(\<Sum>k \<leftarrow> ks. \<Sum>i \<leftarrow> filter (\<lambda>i. f i = k) (x # xs). g i)
      = (\<Sum>k \<leftarrow> ks. (if f x = k then g x else 0) + (\<Sum>i \<leftarrow> filter (\<lambda>i. f i = k) xs. g i))"
    by (intro arg_cong [where f = sum_list] map_cong) auto
  also have "\<dots> = (\<Sum>k \<leftarrow> ks. if f x = k then g x else 0)
      + (\<Sum>k \<leftarrow> ks. \<Sum>i \<leftarrow> filter (\<lambda>i. f i = k) xs. g i)"
    by (simp add: sum_list_addf)
  also have "\<dots> = (if f x \<in> set ks then g x else 0)
      + (\<Sum>i \<leftarrow> filter (\<lambda>i. f i \<in> set ks) xs. g i)"
    using assms Cons.IH by (simp only: sum_list_one_key)
  finally show ?case by simp
qed

lemma group_keys_props:
  shows "distinct (group_keys keys)" and "set (group_keys keys) = {k \<in> set keys. notna k}"
  by (auto simp: group_keys_def)

lemma view_total_group_view:
  "view_total (group_view keys vals is)
     = (\<Sum>i \<leftarrow> filter (\<lambda>i. notna (keys ! i)) is. amount (vals ! i))"
proof -
  let ?ks = "group_keys (map (nth keys) is)"
  let ?xs = "filter (\<lambda>i. notna (keys ! i)) is"
  have "view_total (group_view keys vals is)
      = (\<Sum>k \<leftarrow> ?ks. \<Sum>i \<leftarrow> filter (\<lambda>i. notna (keys ! i) \<and> keys ! i = k) is. amount (vals ! i))"
    by (simp add: view_total_def group_view_def comp_def)
  also have "\<dots> = (\<Sum>k \<leftarrow> ?ks. \<Sum>i \<leftarrow> filter (\<lambda>i. keys ! i = k) ?xs. amount (vals ! i))"
    by (simp add: conj_commute)
  also have "\<dots> = (\<Sum>i \<leftarrow> filter (\<lambda>i. keys ! i \<in> set ?ks) ?xs. amount (vals ! i))"
    using group_keys_props(1) by (rule sum_list_over_keys)
  also have "filter (\<lambda>i. keys ! i \<in> set ?ks) ?xs = ?xs"
    unfolding filter_id_conv by (auto simp: group_keys_props(2))
  finally show ?thesis .
qed

lemma group_view_drop_null:
  "group_view keys vals (filter (\<lambda>i. notna (keys ! i)) is) = group_view keys vals is"
proof -
  have "filter notna (map (nth keys) (filter (\<lambda>i. notna (keys ! i)) is))
      = filter notna (map (nth keys) is)"
    by (induction "is") auto
  then have "group_keys (map (nth keys) (filter (\<lambda>i. notna (keys ! i)) is))
      = group_keys (map (nth keys) is)"
    by (simp add: group_keys_def)
  moreover have "filter (\<lambda>i. notna (keys ! i) \<and> keys ! i = k) (filter (\<lambda>i. notna (keys ! i)) is)
      = filter (\<lambda>i. notna (keys ! i) \<and> keys ! i = k) is" for k
    by (induction "is") auto
  ultimately show ?thesis by (simp add: group_view_def)
qed

lemma group_result_drop_null:
  "group_result keys vals same (filter (\<lambda>i. notna (keys ! i)) is) = group_result keys vals same is"
proof -
  have "(\<exists>i \<in> set (filter (\<lambda>i. notna (keys ! i)) is). notna (keys ! i) \<and> \<not> summable (vals ! i))
      \<longleftrightarrow> (\<exists>i \<in> set is. notna (keys ! i) \<and> \<not> summable (vals ! i))"
    by auto
  then show ?thesis by (simp only: group_result_def group_view_drop_null)
qed

lemma group_result_view:
  "group_result keys vals same is = Inr v \<Longrightarrow> v = group_view keys vals is"
  by (simp add: group_result_def split: if_splits)

lemma getcol_in_columns: "getcol data name = Inr cells \<Longrightarrow> name \<in> set (columns data)"
  by (auto simp: getcol_def columns_def split: option.splits dest: map_of_SomeD intro: rev_image_eqI)

lemma column_by_position:
  assumes "frame_ok data" and "name \<in> set (columns data)"
  shows "map (nth (the_col data name)) [0..<nrows data] = the_col data name"
  using map_nth [of "the_col data name"] length_the_col [OF assms] by simp

lemma map_column:
  assumes "frame_ok data" and "name \<in> set (columns data)"
  shows "map f (the_col data name) = map (\<lambda>i. f (the_col data name ! i)) [0..<nrows data]"
proof -
  have "map f (map (nth (the_col data name)) [0..<nrows data])
      = map (\<lambda>i. f (the_col data name ! i)) [0..<nrows data]"
    by simp
  then show ?thesis by (simp only: column_by_position [OF assms])
qed

lemma take_rows_notna:
  assumes "frame_ok data" and "name \<in> set (columns data)"
  shows "take_rows (map notna (the_col data name)) data
           = pick (filter (\<lambda>i. notna (the_col data name ! i)) [0..<nrows data]) data"
proof -
  have "map notna (the_col data name)
      = map (\<lambda>i. notna (the_col data name ! i)) [0..<nrows data]"
    by (rule map_column [OF assms])
  then have "take_rows (map notna (the_col data name)) data
      = take_rows (map (\<lambda>i. notna (the_col data name ! i)) [0..<nrows data])
          (pick [0..<nrows data] data)"
    by (simp only: pick_all [OF assms(1)])
  then show ?thesis by (simp only: take_rows_pick)
qed

lemma hours_present_props:
  shows "distinct (hours_present data)"
    and "set (hours_present data) = {h. Number h \<in> set (the_col data ''Hour'')}"
proof -
  show "distinct (hours_present data)" by (simp add: hours_present_def)
  have "set (concat (map (\<lambda>x. case x of Number h \<Rightarrow> [h] | _ \<Rightarrow> []) xs)) = {h. Number h \<in> set xs}"
    for xs :: "cell list"
    by (induction xs) (auto split: cell.splits)
  then show "set (hours_present data) = {h. Number h \<in> set (the_col data ''Hour'')}"
    by (simp add: hours_present_def)
qed

subsection \<open>The hour column after preprocessing\<close>

lemma hour_of_number: "hour_of x = Inr y \<Longrightarrow> \<exists>h. y = Number h"
  by (auto simp: hour_of_def split: if_splits sum.splits)

lemma apply_col_hours:
  "apply_col hour_of xs = Inr ys \<Longrightarrow> \<forall>y \<in> set ys. \<exists>h. y = Number h"
  by (induction xs arbitrary: ys) (auto split: sum.splits dest: hour_of_number)

lemma add_hour_numbers:
  assumes "add_hour time data = Inr out"
  shows "\<forall>y \<in> set (the_col out ''Hour''). \<exists>h. y = Number h"
proof (cases "time \<in> set (columns data)")
  case True
  then obtain hours where "apply_col hour_of (the_col data time) = Inr hours"
    and "out = set_col data ''Hour'' hours"
    using assms by (auto simp: add_hour_def split: sum.splits)
  then show ?thesis using apply_col_hours by (simp add: the_col_set_col)
next
  case False
  then have "out = set_col data ''Hour'' (replicate (nrows data) (Number 12))"
    using assms by (simp add: add_hour_def)
  then show ?thesis by (simp add: the_col_set_col)
qed

lemma enrich_hour_numbers:
  assumes "enrich to_datetime day_name r data = Inr out"
  shows "\<forall>y \<in> set (the_col out ''Hour''). \<exists>h. y = Number h"
proof -
  from assms obtain mid where
    mid: "add_hour (time_col r) (add_dates to_datetime day_name (date_col r) data) = Inr mid"
    and out: "out = add_names (correct_anomaly (bill_col r) mid)"
    by (rule enrich_Inr)
  have "the_col out ''Hour'' = the_col (correct_anomaly (bill_col r) mid) ''Hour''"
    unfolding out by (simp add: add_names_def Let_def the_col_set_col)
  moreover have "\<forall>y \<in> set (the_col (correct_anomaly (bill_col r) mid) ''Hour''). \<exists>h. y = Number h"
  proof (cases "bill_col r = ''Hour''")
    case True
    then show ?thesis
      using add_hour_numbers [OF mid] correct_anomaly_col [of "''Hour''" mid] by auto
  next
    case False
    then show ?thesis
      using add_hour_numbers [OF mid] by (simp add: correct_anomaly_def the_col_set_col)
  qed
  ultimately show ?thesis by simp
qed

subsection \<open>The daily views of all hours together\<close>


lemma shop_daily_12: "daily_sums shop_roles shop_data (Text ''All Locations'') 12 = Inr []"
  by code_simp

lemma shop_hours: "hours_present shop_data = [9, 8, 12]"
  by code_simp

lemma shop_data_ok: "frame_ok shop_data"
  by code_simp

text \<open>
  C4, as the code has it: take a table as preprocessing leaves it whose amount column is
  an \<^verbatim>\<open>int64\<close> column and is not the parsed date column. The daily views for all
  locations and every distinct hour present exist, and their totals add up, in
  \<^verbatim>\<open>int64\<close> arithmetic, to the sum of the amount column over the rows whose parsed date
  is not missing. Among these rows none is counted twice and none is lost; the rows
  without a parsed date are in no view.
\<close>

theorem daily_views_cover_dated_rows:
  assumes "frame_ok raw" and "enrich to_datetime day_name r raw = Inr data"
    and "bill_col r \<in> set (columns raw)" and "bill_col r \<noteq> ''transaction_date''"
    and "\<forall>x \<in> set (the_col data (bill_col r)). \<exists>n. x = Number n \<and> fits_int64 n"
  shows "\<exists>views.
           map (daily_sums r data (Text ''All Locations'')) (hours_present data) = map Inr views
           \<and> sum_cells (select (map notna (the_col data ''transaction_date''))
                 (the_col data (bill_col r)))
               = Inr (sum_list (map view_total views))"
proof -
  note ok = enrich_ok [OF assms(1,2)]
  have has_hour: "''Hour'' \<in> set (columns data)"
    and has_date: "''transaction_date'' \<in> set (columns data)"
    and has_bill: "bill_col r \<in> set (columns data)"
    using ok(3) assms(3) by simp_all
  let ?n = "nrows data"
  let ?hs = "the_col data ''Hour''"
  let ?ds = "the_col data ''transaction_date''"
  let ?vs = "the_col data (bill_col r)"
  let ?dated = "filter (\<lambda>i. notna (?ds ! i)) [0..<?n]"
  let ?at = "\<lambda>h. filter (\<lambda>i. notna (?hs ! i) \<and> ?hs ! i = Number h) [0..<?n]"
  let ?views = "map (\<lambda>h. group_view ?ds ?vs (?at h)) (hours_present data)"
  have numbers: "summable (?vs ! i)" if "i < ?n" for i
  proof -
    have "?vs ! i \<in> set ?vs" using that length_the_col [OF ok(1) has_bill] by simp
    then show ?thesis using assms(5) by auto
  qed
  have daily: "daily_sums r data (Text ''All Locations'') h = Inr (group_view ?ds ?vs (?at h))" for h
  proof -
    have "daily_sums r data (Text ''All Locations'') h
        = group_result ?ds ?vs (''transaction_date'' = bill_col r) (?at h)"
      using daily_sums_pick [of r "[0..<?n]" data "Text ''All Locations''" h]
        has_hour has_date has_bill
      by (simp add: pick_all [OF ok(1)] getcol_present)
    moreover have "\<not> (\<exists>i \<in> set (?at h). notna (?ds ! i) \<and> \<not> summable (?vs ! i))"
      using numbers by auto
    ultimately show ?thesis using assms(4) by (simp add: group_result_def)
  qed
  have first: "map (daily_sums r data (Text ''All Locations'')) (hours_present data) = map Inr ?views"
    by (simp add: daily)
  have "sum_list (map view_total ?views)
      = (\<Sum>h \<leftarrow> hours_present data. \<Sum>i \<leftarrow> filter (\<lambda>i. notna (?ds ! i)) (?at h). amount (?vs ! i))"
    by (simp add: comp_def view_total_group_view)
  also have "\<dots> = (\<Sum>h \<leftarrow> hours_present data.
        \<Sum>i \<leftarrow> filter (\<lambda>i. ?hs ! i = Number h) ?dated. amount (?vs ! i))"
  proof -
    have "filter (\<lambda>i. notna (?ds ! i)) (?at h) = filter (\<lambda>i. ?hs ! i = Number h) ?dated" for h
      by (auto intro!: filter_cong)
    then show ?thesis by simp
  qed
  also have "\<dots> = (\<Sum>k \<leftarrow> map Number (hours_present data).
        \<Sum>i \<leftarrow> filter (\<lambda>i. ?hs ! i = k) ?dated. amount (?vs ! i))"
    by (simp add: comp_def)
  also have "\<dots> = (\<Sum>i \<leftarrow> filter (\<lambda>i. ?hs ! i \<in> set (map Number (hours_present data))) ?dated.
        amount (?vs ! i))"
    by (rule sum_list_over_keys) (simp add: distinct_map hours_present_props(1) inj_on_def)
  also have "filter (\<lambda>i. ?hs ! i \<in> set (map Number (hours_present data))) ?dated = ?dated"
  proof -
    have "?hs ! i \<in> set (map Number (hours_present data))" if "i < ?n" for i
    proof -
      have "?hs ! i \<in> set ?hs" using that length_the_col [OF ok(1) has_hour] by simp
      moreover from this obtain h where "?hs ! i = Number h"
        using enrich_hour_numbers [OF assms(2)] by blast
      ultimately show ?thesis by (simp add: hours_present_props(2) image_iff)
    qed
    then show ?thesis unfolding filter_id_conv by simp
  qed
  finally have total: "sum_list (map view_total ?views) = (\<Sum>i \<leftarrow> ?dated. amount (?vs ! i))" .
  have sel: "select (map notna ?ds) ?vs = map (nth ?vs) ?dated"
  proof -
    have "select (map notna ?ds) ?vs
        = select (map (\<lambda>i. notna (?ds ! i)) [0..<?n]) (map (nth ?vs) [0..<?n])"
      by (simp only: map_column [OF ok(1) has_date, of notna] column_by_position [OF ok(1) has_bill])
    then show ?thesis by (simp only: select_map)
  qed
  have "list_all summable (map (nth ?vs) ?dated)"
    using numbers by (simp add: list_all_iff)
  then have "sum_cells (select (map notna ?ds) ?vs) = Inr (\<Sum>i \<leftarrow> ?dated. amount (?vs ! i))"
    by (simp add: sel sum_cells_def comp_def)
  then show ?thesis using first total by (intro exI [of _ ?views]) simp
qed

theorem daily_views_cover_dated_rows_witness:
  "frame_ok shop_raw \<and> enrich shop_dates shop_days shop_roles shop_raw = Inr shop_data
   \<and> bill_col shop_roles \<in> set (columns shop_raw) \<and> bill_col shop_roles \<noteq> ''transaction_date''
   \<and> (\<exists>views. map (daily_sums shop_roles shop_data (Text ''All Locations'')) [9, 8, 12]
          = map Inr views \<and> sum_list (map view_total views) = 71)"
proof -
  have bill: "bill_col shop_roles \<in> set (columns shop_raw)"
      "bill_col shop_roles \<noteq> ''transaction_date''"
    by (simp_all add: shop_raw_def shop_roles_def columns_def)
  have amounts: "\<forall>x \<in> set (the_col shop_data (bill_col shop_roles)). \<exists>n. x = Number n \<and> fits_int64 n"
    by (simp add: shop_data_def shop_roles_def the_col_def fits_int64_def)
  have total: "sum_cells (select (map notna (the_col shop_data ''transaction_date''))
      (the_col shop_data (bill_col shop_roles))) = Inr 71"
    by code_simp
  show ?thesis
    using daily_views_cover_dated_rows [OF shop_raw_ok shop_enriched bill amounts]
      shop_raw_ok shop_enriched bill
    unfolding shop_hours total by auto
qed

text \<open>
  C4 as stated fails on the shop: the hours present are 9, 8 and 12, the three daily views
  hold 15, 36 + 20 and nothing, 71 together, and the amount column sums to 78. The sale of
  7 has no parsed date.
\<close>

theorem daily_views_miss_undated_row:
  "hours_present shop_data = [9, 8, 12]
   \<and> daily_sums shop_roles shop_data (Text ''All Locations'') 9
       = Inr [(Stamp (Timestamp 2024 January 1 0), 15)]
   \<and> daily_sums shop_roles shop_data (Text ''All Locations'') 8
       = Inr [(Stamp (Timestamp 2024 January 1 0), 36), (Stamp (Timestamp 2024 January 2 0), 20)]
   \<and> daily_sums shop_roles shop_data (Text ''All Locations'') 12 = Inr []
   \<and> sum_cells (the_col shop_data (bill_col shop_roles)) = Inr 78"
  by code_simp

subsection \<open>Rows without a parsed date\<close>

text \<open>
  C10: no group of the daily view has a missing date as its key, and the view is the
  same when the rows whose parsed date is missing are removed from the table first: the
  amounts of these rows are in no daily group.
\<close>

theorem daily_view_drops_null_dates:
  assumes "frame_ok data" and "daily_sums r data loc h = Inr view"
  shows "Null \<notin> fst ` set view
         \<and> daily_sums r (take_rows (map notna (the_col data ''transaction_date'')) data) loc h
             = Inr view"
proof -
  let ?n = "nrows data"
  let ?ds = "the_col data ''transaction_date''"
  let ?vs = "the_col data (bill_col r)"
  let ?same = "''transaction_date'' = bill_col r"
  let ?keep = "\<lambda>is. filter (\<lambda>i. notna (the_col data ''Hour'' ! i) \<and> the_col data ''Hour'' ! i = Number h)
             (filter (\<lambda>i. loc = Text ''All Locations''
                  \<or> notna (the_col data (location_col r) ! i)
                    \<and> the_col data (location_col r) ! i = loc) is)"
  have whole: "pick [0..<?n] data = data" by (rule pick_all [OF assms(1)])
  show ?thesis
  proof (cases r data loc h rule: daily_sums_cases)
    case (fails e)
    from fails [of "[0..<?n]"] assms(2) whole show ?thesis by simp
  next
    case grouped
    have res: "group_result ?ds ?vs ?same (?keep [0..<?n]) = Inr view"
      using grouped(1) [of "[0..<?n]"] assms(2) whole by simp
    then have v: "view = group_view ?ds ?vs (?keep [0..<?n])"
      by (rule group_result_view)
    have "map fst view = group_keys (map (nth ?ds) (?keep [0..<?n]))"
      unfolding v by (simp add: group_view_def comp_def)
    then have "set (map fst view) \<subseteq> {k. notna k}"
      by (auto simp: group_keys_props(2))
    then have no_null: "Null \<notin> fst ` set view" by auto
    have present: "''transaction_date'' \<in> set (columns data)"
      using grouped(3) by (rule getcol_in_columns)
    let ?dated = "filter (\<lambda>i. notna (?ds ! i)) [0..<?n]"
    have "daily_sums r (take_rows (map notna ?ds) data) loc h
        = group_result ?ds ?vs ?same (?keep ?dated)"
      using grouped(1) [of ?dated] by (simp add: take_rows_notna [OF assms(1) present])
    also have "?keep ?dated = filter (\<lambda>i. notna (?ds ! i)) (?keep [0..<?n])"
      by (auto intro!: filter_cong)
    also have "group_result ?ds ?vs ?same (filter (\<lambda>i. notna (?ds ! i)) (?keep [0..<?n])) = Inr view"
      using res by (simp only: group_result_drop_null)
    finally show ?thesis using no_null by simp
  qed
qed

theorem daily_view_drops_null_dates_witness:
  "frame_ok shop_data
   \<and> the_col shop_data ''Hour'' ! 3 = Number 12
   \<and> the_col shop_data ''transaction_date'' ! 3 = Null
   \<and> the_col shop_data ''Total'' ! 3 = Number 7
   \<and> daily_sums shop_roles shop_data (Text ''All Locations'') 12 = Inr []
   \<and> Null \<notin> fst ` set ([] :: view)
   \<and> daily_sums shop_roles
        (take_rows (map notna (the_col shop_data ''transaction_date'')) shop_data)
        (Text ''All Locations'') 12
       = Inr []"
proof -
  have "the_col shop_data ''Hour'' ! 3 = Number 12 \<and> the_col shop_data ''transaction_date'' ! 3 = Null
      \<and> the_col shop_data ''Total'' ! 3 = Number 7"
    by code_simp
  then show ?thesis
    using daily_view_drops_null_dates [OF shop_data_ok shop_daily_12] shop_data_ok shop_daily_12
    by simp
qed

subsection \<open>Helper lemmas: the order of a view\<close>










subsection \<open>The order of the three views\<close>




end
